theory Spec2Isabelle
  imports Complex_Main "HOL-Library.Sublist" "HOL-Library.AList" "HOL-Library.Log_Nat"
begin

section \<open>Errors and data of the sorting program\<close>

text \<open>
  The Python exceptions the two versions of the program can raise, as values. A function
  that can raise returns \<open>py_error + 'a\<close>, with \<open>Inl\<close> for the exception.
\<close>

datatype py_error =
    ZeroDivisionError
  | FileNotFoundError
  | PermissionError
  | UnicodeDecodeError
  | JSONDecodeError
  | AttributeError
  | TypeError
  | KeyError
  | IndexError
  | OSError
  | RuntimeError

section \<open>Python floats\<close>

text \<open>
  A Python float is an IEEE 754 double: a finite value, given here by the rational
  number it stands for, an infinity, or not-a-number (\<open>json.load\<close> reads the last three
  from \<open>Infinity\<close>, \<open>-Infinity\<close> and \<open>NaN\<close>). The two zeros are one value: the program
  only subtracts and compares.
\<close>

datatype pyfloat = Finite rat | PosInf | NegInf | NaN

text \<open>
  Rounding to 53 significant bits, to the nearest, ties to the even significand.
  \<open>binade q\<close> is the exponent \<open>e\<close> with \<open>2^e \<le> q < 2^(e + 1)\<close> of a positive \<open>q\<close>; the
  doubles of that binade are the multiples of \<open>2^(e - 52)\<close>. \<open>round_double\<close> does not
  bound the exponent. Below the normal range nothing is lost by that for a difference of
  two doubles, which is exact there in IEEE arithmetic as well; above it, \<open>to_float\<close>
  gives the infinity that IEEE arithmetic gives, from \<open>2^1024\<close> on.
\<close>

definition pow2 :: "int \<Rightarrow> rat" where
  "pow2 e = (if e \<ge> 0 then 2 ^ nat e else 1 / 2 ^ nat (- e))"

definition round_half_even :: "rat \<Rightarrow> int" where
  "round_half_even m =
     (let f = \<lfloor>m\<rfloor>; r = m - of_int f
      in if r < 1 / 2 then f else if r > 1 / 2 then f + 1 else if even f then f else f + 1)"

definition binade :: "rat \<Rightarrow> int" where
  "binade q =
     (case quotient_of q of (a, b) \<Rightarrow>
        (let c = bitlen a - bitlen b in if pow2 c \<le> q then c else c - 1))"

definition round_magnitude :: "rat \<Rightarrow> rat" where
  "round_magnitude q =
     (if q = 0 then 0
      else (let ulp = pow2 (binade q - 52) in of_int (round_half_even (q / ulp)) * ulp))"

definition round_double :: "rat \<Rightarrow> rat" where
  "round_double q = (if q < 0 then - round_magnitude (- q) else round_magnitude q)"

definition to_float :: "rat \<Rightarrow> pyfloat" where
  "to_float q =
     (let r = round_double q
      in if r \<ge> 2 ^ 1024 then PosInf else if r \<le> - (2 ^ 1024) then NegInf else Finite r)"

text \<open>
  The float operations of \<open>compare_layouts\<close>: \<open>x - y\<close>, \<open>abs(x)\<close> and \<open>x < y\<close>. A
  comparison with not-a-number is false.
\<close>

fun float_sub :: "pyfloat \<Rightarrow> pyfloat \<Rightarrow> pyfloat" where
  "float_sub (Finite x) (Finite y) = to_float (x - y)"
| "float_sub NaN y = NaN"
| "float_sub x NaN = NaN"
| "float_sub PosInf PosInf = NaN"
| "float_sub NegInf NegInf = NaN"
| "float_sub PosInf y = PosInf"
| "float_sub NegInf y = NegInf"
| "float_sub (Finite x) PosInf = NegInf"
| "float_sub (Finite x) NegInf = PosInf"

fun float_abs :: "pyfloat \<Rightarrow> pyfloat" where
  "float_abs (Finite x) = Finite \<bar>x\<bar>"
| "float_abs PosInf = PosInf"
| "float_abs NegInf = PosInf"
| "float_abs NaN = NaN"

fun float_less :: "pyfloat \<Rightarrow> pyfloat \<Rightarrow> bool" where
  "float_less (Finite x) (Finite y) = (x < y)"
| "float_less NaN y = False"
| "float_less x NaN = False"
| "float_less PosInf y = False"
| "float_less x PosInf = True"
| "float_less x NegInf = False"
| "float_less NegInf y = True"

text \<open>
  The quotient \<open>m / n\<close> of two integers, which Python rounds once to the nearest double;
  for a counter and a list length it is a finite number between 0 and 1.
\<close>

definition int_true_div :: "nat \<Rightarrow> nat \<Rightarrow> rat" where
  "int_true_div m n = round_double (of_nat m / of_nat n)"

section \<open>Version 0.0.2: \<open>compare_layouts\<close>\<close>

text \<open>
  One entry of \<open>extract_layout_features\<close>: the dictionary with the keys \<open>"text"\<close> and
  \<open>"bounding_box"\<close>, the box being \<open>(x0, y0, x1, y1)\<close>. The coordinates are floats (an
  integer of the template file becomes a float when a float is subtracted from it or it
  from a float).
\<close>

record layout_feature =
  block_text :: string
  bounding_box :: "pyfloat \<times> pyfloat \<times> pyfloat \<times> pyfloat"

text \<open>
  The body of the \<open>for\<close> loop of \<open>compare_layouts\<close>: \<open>box1[0]\<close> and \<open>box1[1]\<close> are the
  top-left corner; the counter grows when
  \<open>abs(box1[0] - box2[0]) < 10 and abs(box1[1] - box2[1]) < 10\<close>.
\<close>

definition box_step :: "nat \<Rightarrow> layout_feature \<times> layout_feature \<Rightarrow> nat" where
  "box_step similarity p =
     (case p of (feature1, feature2) \<Rightarrow>
        (let box1 = bounding_box feature1; box2 = bounding_box feature2
         in if float_less (float_abs (float_sub (fst box1) (fst box2))) (Finite 10)
               \<and> float_less (float_abs (float_sub (fst (snd box1)) (fst (snd box2)))) (Finite 10)
            then similarity + 1 else similarity))"

text \<open>
  \<open>compare_layouts\<close>: the loop over \<open>zip(features1, features2)\<close>, then the division by
  \<open>max(len(features1), len(features2))\<close>, which raises when both lists are empty. The
  quotient of the two integers is a float.
\<close>

definition compare_layouts :: "layout_feature list \<Rightarrow> layout_feature list \<Rightarrow> py_error + rat" where
  "compare_layouts features1 features2 =
     (let similarity = foldl box_step 0 (zip features1 features2);
          longest = max (length features1) (length features2)
      in if longest = 0 then Inl ZeroDivisionError
         else Inr (int_true_div similarity longest))"

section \<open>Templates and the classifier\<close>

text \<open>
  The value of one key of the template file: \<open>"header_keywords"\<close>, the optional
  \<open>"layout_features"\<close> (version 0.0.2 tests \<open>"layout_features" in rules\<close>) and
  \<open>"regex_patterns"\<close> (read by version 0.0.1 only). The templates are the dictionary
  \<open>json.load\<close> returns; the code only iterates over \<open>templates.items()\<close>, in the order
  of the file, so they are a list of pairs here.
\<close>

record template_rules =
  header_keywords :: "string list"
  layout_features :: "layout_feature list option"
  regex_patterns :: "(string \<times> string) list"

type_synonym templates = "(string \<times> template_rules) list"

text \<open>
  The body of the loop of \<open>identify_page\<close> up to its \<open>if\<close>: \<open>text_match\<close> is
  \<open>any(keyword in text ...)\<close>, \<open>layout_similarity\<close> starts at 0 and is computed whenever
  the template has layout features, also when \<open>text_match\<close> is already true; the
  condition is \<open>text_match or layout_similarity > 0.8\<close>, where \<open>0.8\<close> is the double
  nearest to 8/10. An exception of \<open>compare_layouts\<close> leaves the loop.
\<close>

definition template_matches :: "string \<Rightarrow> layout_feature list \<Rightarrow> template_rules \<Rightarrow> py_error + bool" where
  "template_matches text page_features rules =
     (let text_match = list_ex (\<lambda>keyword. sublist keyword text) (header_keywords rules)
      in case (case layout_features rules of
                 None \<Rightarrow> Inr 0
               | Some template_features \<Rightarrow> compare_layouts page_features template_features) of
           Inl e \<Rightarrow> Inl e
         | Inr layout_similarity \<Rightarrow>
             Inr (text_match \<or> layout_similarity > round_double (8 / 10)))"

fun identify_page :: "string \<Rightarrow> layout_feature list \<Rightarrow> templates \<Rightarrow> py_error + string option" where
  "identify_page text page_features [] = Inr None"
| "identify_page text page_features ((company, rules) # rest) =
     (case template_matches text page_features rules of
        Inl e \<Rightarrow> Inl e
      | Inr True \<Rightarrow> Inr (Some company)
      | Inr False \<Rightarrow> identify_page text page_features rest)"

text \<open>Version 0.0.1: \<open>identify_company\<close> looks at the header keywords only.\<close>

fun identify_company :: "string \<Rightarrow> templates \<Rightarrow> string option" where
  "identify_company text [] = None"
| "identify_company text ((company, rules) # rest) =
     (if list_ex (\<lambda>keyword. sublist keyword text) (header_keywords rules) then Some company
      else identify_company text rest)"





text \<open>
  The same in the arithmetic of the code. Two coordinates are \<open>float_close\<close> when both
  are finite and their difference, rounded to the nearest double, is below 10 in absolute
  value (a rounded difference of exactly 10 does not count); the similarity is the
  quotient rounded to the nearest double; the threshold is the double nearest to 8/10.
\<close>

fun float_close :: "pyfloat \<Rightarrow> pyfloat \<Rightarrow> bool" where
  "float_close (Finite x) (Finite u) = (\<bar>round_double (x - u)\<bar> < 10)"
| "float_close x u = False"

definition less_than_10_apart :: "layout_feature \<Rightarrow> layout_feature \<Rightarrow> bool" where
  "less_than_10_apart a b =
     (case (bounding_box a, bounding_box b) of
        ((x0, y0, _), (u0, v0, _)) \<Rightarrow> float_close x0 u0 \<and> float_close y0 v0)"

definition float_layout_similarity :: "layout_feature list \<Rightarrow> layout_feature list \<Rightarrow> rat" where
  "float_layout_similarity features1 features2 =
     round_double
       (of_nat (length (filter (\<lambda>(a, b). less_than_10_apart a b) (zip features1 features2)))
          / of_nat (max (length features1) (length features2)))"

definition float_template_matches :: "string \<Rightarrow> layout_feature list \<Rightarrow> template_rules \<Rightarrow> bool" where
  "float_template_matches text page_features rules =
     (list_ex (\<lambda>keyword. sublist keyword text) (header_keywords rules)
      \<or> (case layout_features rules of
            None \<Rightarrow> False
          | Some template_features \<Rightarrow>
              float_layout_similarity page_features template_features > round_double (8 / 10)))"

section \<open>Loading the templates\<close>

text \<open>
  \<open>json.load\<close> returns whatever value the file holds, and nothing checks it on the way to
  \<open>identify_page\<close>. The value is a dictionary (a JSON object, its items in the order of
  the file) or something else: a list, a string, a number, \<open>true\<close>, \<open>false\<close> or \<open>null\<close>.
  A value of the dictionary is the rules of a template as above, or an object that has
  no \<open>"header_keywords"\<close> (such as \<open>{}\<close>), or not an object at all. Further shapes
  (keywords that are not strings, features without a box of numbers) are left out.
\<close>

datatype json_rules = Rules template_rules | ObjectWithoutKeywords | NotAnObject

datatype json_value = JsonObject "(string \<times> json_rules) list" | JsonOther

text \<open>The dictionary that holds the given templates and nothing else.\<close>

definition template_dictionary :: "templates \<Rightarrow> json_value" where
  "template_dictionary ts = JsonObject (map (\<lambda>(company, rules). (company, Rules rules)) ts)"

text \<open>
  \<open>identify_page\<close> on the value \<open>json.load\<close> returned. \<open>templates.items()\<close> raises
  \<open>AttributeError\<close> for a value that is not a dictionary. In the loop,
  \<open>rules["header_keywords"]\<close> is evaluated first: it raises \<open>KeyError\<close> for an object
  without that key and \<open>TypeError\<close> for a value that is not an object; for the rules of
  a template the body is \<open>template_matches\<close>.
\<close>

definition rules_match :: "string \<Rightarrow> layout_feature list \<Rightarrow> json_rules \<Rightarrow> py_error + bool" where
  "rules_match text page_features rules =
     (case rules of
        Rules template \<Rightarrow> template_matches text page_features template
      | ObjectWithoutKeywords \<Rightarrow> Inl KeyError
      | NotAnObject \<Rightarrow> Inl TypeError)"

fun identify_page_items ::
  "string \<Rightarrow> layout_feature list \<Rightarrow> (string \<times> json_rules) list \<Rightarrow> py_error + string option" where
  "identify_page_items text page_features [] = Inr None"
| "identify_page_items text page_features ((company, rules) # rest) =
     (case rules_match text page_features rules of
        Inl e \<Rightarrow> Inl e
      | Inr True \<Rightarrow> Inr (Some company)
      | Inr False \<Rightarrow> identify_page_items text page_features rest)"

definition identify_page_json ::
  "string \<Rightarrow> layout_feature list \<Rightarrow> json_value \<Rightarrow> py_error + string option" where
  "identify_page_json text page_features templates =
     (case templates of
        JsonOther \<Rightarrow> Inl AttributeError
      | JsonObject items \<Rightarrow> identify_page_items text page_features items)"

text \<open>
  The template path: no file there, a file that \<open>open\<close> cannot open (a directory, a file
  without read permission), or a file with its content. The content is bytes that the
  text decoder rejects, text that is not JSON, or the text of a JSON value. \<open>open\<close>
  raises \<open>FileNotFoundError\<close> for a missing file and another \<open>OSError\<close> for a file it
  cannot open; \<open>json.load\<close> reads the file, which raises \<open>UnicodeDecodeError\<close> for bytes
  that do not decode, and parses the text, which raises \<open>JSONDecodeError\<close> for text that
  is not JSON.
\<close>

datatype json_text = Undecodable | Malformed | Parsed json_value

datatype template_file = NoFile | NoAccess | File json_text

definition open_file :: "template_file \<Rightarrow> py_error + json_text" where
  "open_file source =
     (case source of
        NoFile \<Rightarrow> Inl FileNotFoundError
      | NoAccess \<Rightarrow> Inl PermissionError
      | File content \<Rightarrow> Inr content)"

definition json_load :: "json_text \<Rightarrow> py_error + json_value" where
  "json_load content =
     (case content of
        Undecodable \<Rightarrow> Inl UnicodeDecodeError
      | Malformed \<Rightarrow> Inl JSONDecodeError
      | Parsed loaded \<Rightarrow> Inr loaded)"

text \<open>
  \<open>load_templates\<close> (the same in both versions): the \<open>try\<close> block opens and parses; the
  only handler is \<open>except FileNotFoundError\<close>, which returns the empty dictionary. Any
  other exception leaves the function, and a value that was parsed is returned as it
  is.
\<close>

definition load_templates :: "template_file \<Rightarrow> py_error + json_value" where
  "load_templates source =
     (case (case open_file source of Inl e \<Rightarrow> Inl e | Inr content \<Rightarrow> json_load content) of
        Inl e \<Rightarrow> (if e = FileNotFoundError then Inr (JsonObject []) else Inl e)
      | Inr loaded \<Rightarrow> Inr loaded)"

section \<open>Version 0.0.1: field extraction and file names\<close>

text \<open>
  \<open>extract_data\<close>. The regular-expression engine is a parameter: \<open>re_search pattern text\<close>
  stands for \<open>re.search(pattern, text)\<close> followed by \<open>match.group()\<close>, that is the text
  of the first match, or \<open>None\<close>. \<open>extracted_info\<close> is a dictionary filled in the order of
  \<open>regex_patterns\<close>; \<open>company in templates\<close> is false for \<open>None\<close>.
\<close>

definition extract_data ::
  "(string \<Rightarrow> string \<Rightarrow> string option) \<Rightarrow> string \<Rightarrow> templates \<Rightarrow> string option
     \<Rightarrow> (string \<times> string option) list" where
  "extract_data re_search text templates company =
     (case company of
        None \<Rightarrow> []
      | Some c \<Rightarrow>
          (case map_of templates c of
             None \<Rightarrow> []
           | Some rules \<Rightarrow>
               foldl (\<lambda>extracted_info (key, pattern).
                        AList.update key (re_search pattern text) extracted_info)
                 [] (regex_patterns rules)))"

text \<open>Python's \<open>str\<close> of a natural number, for the f-string \<open>page_{page_number + 1}\<close>.\<close>

fun str_nat :: "nat \<Rightarrow> string" where
  "str_nat n =
     (if n < 10 then [''0123456789'' ! n]
      else str_nat (n div 10) @ [''0123456789'' ! (n mod 10)])"

declare str_nat.simps [simp del]

text \<open>
  Lines 93 and 94 of \<open>process_page\<close>: \<open>order_number\<close> is
  \<open>extracted_data.get("Order Number")\<close> for a non-empty dictionary and \<open>None\<close> otherwise;
  the name is \<open>f"{order_number}.png"\<close> when \<open>order_number\<close> is truthy (neither \<open>None\<close>
  nor the empty string) and \<open>f"page_{page_number + 1}.png"\<close> otherwise.
\<close>

definition order_number_of :: "(string \<times> string option) list \<Rightarrow> string option" where
  "order_number_of extracted_data =
     (if extracted_data \<noteq> []
      then (case map_of extracted_data ''Order Number'' of None \<Rightarrow> None | Some v \<Rightarrow> v)
      else None)"

definition file_name :: "(string \<times> string option) list \<Rightarrow> nat \<Rightarrow> string" where
  "file_name extracted_data page_number =
     (case order_number_of extracted_data of
        None \<Rightarrow> ''page_'' @ str_nat (page_number + 1) @ ''.png''
      | Some order_number \<Rightarrow>
          (if order_number \<noteq> [] then order_number @ ''.png''
           else ''page_'' @ str_nat (page_number + 1) @ ''.png''))"

text \<open>
  What the libraries give \<open>process_page\<close> of version 0.0.1 for one page: the number of
  images \<open>convert_from_path\<close> returns (or the exception of \<open>fitz.open\<close> or of the
  conversion), the text \<open>pytesseract\<close> reads (or its exception), and whether creating the
  folder and saving the image raise.
\<close>

record ocr_page =
  images_count :: "py_error + nat"
  ocr_text :: "py_error + string"
  save_error :: "py_error option"

datatype page_report =
    OutOfRange
  | Processed "(string \<times> string) option"
  | ProcessingError py_error

text \<open>
  \<open>process_page\<close> of version 0.0.1. \<open>Processed (Some (company, name))\<close>: the image was
  saved under that name in the company's folder; \<open>Processed None\<close>: no company matched
  and nothing was written. Every exception is caught and becomes the returned message.
\<close>

definition process_page_v1 ::
  "(string \<Rightarrow> string \<Rightarrow> string option) \<Rightarrow> templates \<Rightarrow> nat \<Rightarrow> ocr_page \<Rightarrow> page_report" where
  "process_page_v1 re_search templates page_number page =
     (case images_count page of
        Inl e \<Rightarrow> ProcessingError e
      | Inr n \<Rightarrow>
          if page_number \<ge> n then OutOfRange
          else (case ocr_text page of
                  Inl e \<Rightarrow> ProcessingError e
                | Inr text \<Rightarrow>
                    (let company = identify_company text templates;
                         extracted_data = extract_data re_search text templates company;
                         name = file_name extracted_data page_number
                     in case company of
                          None \<Rightarrow> Processed None
                        | Some c \<Rightarrow>
                            if c = [] then Processed None
                            else (case save_error page of
                                    Some e \<Rightarrow> ProcessingError e
                                  | None \<Rightarrow> Processed (Some (c, name))))))"

section \<open>Version 0.0.2: assembling the PDFs\<close>

text \<open>
  A page image is named by the page it was rendered from: the index of the PDF in
  \<open>pdf_file_paths\<close> and the page number.
\<close>

type_synonym page_ref = "nat \<times> nat"

text \<open>
  Which file operations of \<open>create_company_pdfs\<close> raise: \<open>os.makedirs\<close> in
  \<open>create_company_folder\<close>, the temporary JPEG of one image (\<open>image.save\<close>, \<open>pdf.image\<close>,
  \<open>os.remove\<close>), and \<open>pdf.output\<close>.
\<close>

record assembly_faults =
  makedirs_fails :: "string \<Rightarrow> bool"
  image_fails :: "string \<Rightarrow> page_ref \<Rightarrow> bool"
  output_fails :: "string \<Rightarrow> bool"

definition category_fails :: "assembly_faults \<Rightarrow> string \<Rightarrow> page_ref list \<Rightarrow> bool" where
  "category_fails faults company images =
     (makedirs_fails faults company \<or> list_ex (image_fails faults company) images
      \<or> output_fails faults company)"

text \<open>
  \<open>create_company_pdfs\<close>: the loop over \<open>company_images.items()\<close> has no \<open>try\<close>; the first
  exception leaves the loop and the function. The result is the list of PDFs written
  (the company and its pages in order) and the exception, if any.
\<close>

fun create_company_pdfs ::
  "assembly_faults \<Rightarrow> (string \<times> page_ref list) list
     \<Rightarrow> (string \<times> page_ref list) list \<times> py_error option" where
  "create_company_pdfs faults [] = ([], None)"
| "create_company_pdfs faults ((company, images) # rest) =
     (if makedirs_fails faults company then ([], Some OSError)
      else if list_ex (image_fails faults company) images then ([], Some OSError)
      else if output_fails faults company then ([], Some OSError)
      else (case create_company_pdfs faults rest of
              (pdfs, err) \<Rightarrow> ((company, images) # pdfs, err)))"

section \<open>Version 0.0.2: pages, workers and the batch\<close>

text \<open>
  What the libraries give \<open>process_page\<close> of version 0.0.2 for one page: the text and
  the layout features (or the exception of \<open>fitz\<close>), and whether \<open>convert_from_path\<close>
  and the resizing give the page image or raise.
\<close>

record pdf_page =
  page_text :: "py_error + string \<times> layout_feature list"
  page_image :: "py_error option"

text \<open>
  \<open>process_page\<close> up to line 100: text and features, \<open>identify_page\<close>, then the image.
  Any exception is caught by the \<open>except\<close> of \<open>process_page\<close>, and the page is logged
  as failed.
\<close>

definition classify_page :: "json_value \<Rightarrow> pdf_page \<Rightarrow> py_error + string option" where
  "classify_page templates page =
     (case page_text page of
        Inl e \<Rightarrow> Inl e
      | Inr (text, page_features) \<Rightarrow>
          (case identify_page_json text page_features templates of
             Inl e \<Rightarrow> Inl e
           | Inr company \<Rightarrow>
               (case page_image page of Some e \<Rightarrow> Inl e | None \<Rightarrow> Inr company)))"

text \<open>
  The shared dictionary \<open>company_images\<close>. Its values are list objects, which a worker
  may hold while another worker rebinds the key, so the dictionary maps a company to
  the address of a list and the lists live in a store.
\<close>

record shared =
  company_images :: "(string \<times> nat) list"
  lists :: "page_ref list list"

text \<open>
  Lines 101 to 104 of \<open>process_page\<close>, one atomic operation on the shared dictionary at
  a time. A worker is about to evaluate \<open>company not in company_images\<close> (\<open>Check\<close>), to
  run \<open>company_images[company] = []\<close> (\<open>Assign\<close>), to evaluate
  \<open>company_images[company]\<close> (\<open>Lookup\<close>), to call \<open>append(image)\<close> on the list it holds
  (\<open>Append\<close>), or has finished.
\<close>

datatype worker =
    Check string page_ref
  | Assign string page_ref
  | Lookup string page_ref
  | Append nat page_ref
  | Finished

text \<open>
  A worker enters line 102 only when \<open>company\<close> is truthy: not \<open>None\<close> and not the empty
  string. A page that failed or matched nothing touches no shared state.
\<close>

definition start_worker :: "json_value \<Rightarrow> nat \<Rightarrow> nat \<Rightarrow> pdf_page \<Rightarrow> worker" where
  "start_worker templates pdf_index page_number page =
     (case classify_page templates page of
        Inl e \<Rightarrow> Finished
      | Inr None \<Rightarrow> Finished
      | Inr (Some company) \<Rightarrow>
          if company = [] then Finished else Check company (pdf_index, page_number))"

fun step :: "worker \<Rightarrow> shared \<Rightarrow> worker \<times> shared" where
  "step (Check company img) s =
     (case map_of (company_images s) company of
        None \<Rightarrow> (Assign company img, s)
      | Some a \<Rightarrow> (Lookup company img, s))"
| "step (Assign company img) s =
     (Lookup company img,
      s\<lparr>company_images := AList.update company (length (lists s)) (company_images s),
        lists := lists s @ [[]]\<rparr>)"
| "step (Lookup company img) s =
     (case map_of (company_images s) company of
        None \<Rightarrow> (Finished, s)
      | Some a \<Rightarrow> (Append a img, s))"
| "step (Append a img) s =
     (Finished, s\<lparr>lists := (lists s)[a := lists s ! a @ [img]]\<rparr>)"
| "step Finished s = (Finished, s)"

text \<open>
  The thread pool runs the workers of one PDF concurrently. A schedule is the list of
  the workers' indices in the order in which they take their steps.
\<close>

fun run_schedule :: "nat list \<Rightarrow> worker list \<Rightarrow> shared \<Rightarrow> worker list \<times> shared" where
  "run_schedule [] ws s = (ws, s)"
| "run_schedule (k # ks) ws s =
     (if k < length ws
      then (case step (ws ! k) s of (w, s') \<Rightarrow> run_schedule ks (ws[k := w]) s')
      else run_schedule ks ws s)"

text \<open>
  The loop over \<open>executor.map\<close> ends only when every task of the PDF has ended: the
  workers that the schedule left unfinished run to their end (at most four steps each),
  in the order of the pages.
\<close>

definition finish :: "worker \<Rightarrow> shared \<Rightarrow> shared" where
  "finish w s =
     (case step w s of (w1, s1) \<Rightarrow>
        (case step w1 s1 of (w2, s2) \<Rightarrow>
           (case step w2 s2 of (w3, s3) \<Rightarrow> snd (step w3 s3))))"

fun drain :: "worker list \<Rightarrow> shared \<Rightarrow> shared" where
  "drain [] s = s"
| "drain (w # ws) s = drain ws (finish w s)"

definition run_pdf :: "json_value \<Rightarrow> nat \<Rightarrow> pdf_page list \<Rightarrow> nat list \<Rightarrow> shared \<Rightarrow> shared" where
  "run_pdf templates pdf_index pdf schedule s =
     (case run_schedule schedule
             (map (\<lambda>(page_number, page). start_worker templates pdf_index page_number page)
                (enumerate 0 pdf)) s of
        (ws, s') \<Rightarrow> drain ws s')"

text \<open>
  The state of the loop of \<open>process_files\<close>: the shared dictionary, \<open>completed_pages\<close>,
  and the values given to \<open>progress_var.set\<close> so far.
\<close>

record batch =
  shared_state :: shared
  completed :: nat
  reported :: "rat list"

text \<open>
  The body of the loop over \<open>pdf_file_paths\<close>: the tasks of one PDF run (under the
  schedule given for that PDF, or in page order when none is given); the main thread
  adds one to \<open>completed_pages\<close> per result and reports
  \<open>(completed_pages / total_pages) * 100\<close>. Every task gives a result, since
  \<open>process_page\<close> catches its exceptions.
\<close>

fun dispatch ::
  "json_value \<Rightarrow> nat \<Rightarrow> nat \<Rightarrow> pdf_page list list \<Rightarrow> nat list list \<Rightarrow> batch \<Rightarrow> batch" where
  "dispatch templates total_pages pdf_index [] schedules b = b"
| "dispatch templates total_pages pdf_index (pdf # pdfs) schedules b =
     dispatch templates total_pages (pdf_index + 1) pdfs (tl schedules)
       \<lparr>shared_state =
          run_pdf templates pdf_index pdf (case schedules of [] \<Rightarrow> [] | sch # _ \<Rightarrow> sch)
            (shared_state b),
        completed = completed b + length pdf,
        reported = reported b
          @ map (\<lambda>completed_pages. of_nat completed_pages / of_nat total_pages * 100)
              [completed b + 1 ..< completed b + length pdf + 1]\<rparr>"

text \<open>The dictionary at the end of the loop, with the lists in place of their addresses.\<close>

definition buckets_of :: "shared \<Rightarrow> (string \<times> page_ref list) list" where
  "buckets_of s = map (\<lambda>(company, a). (company, lists s ! a)) (company_images s)"

text \<open>
  Line 139 opens every PDF to count its pages; a PDF that \<open>fitz\<close> cannot open raises
  there. A PDF that opens is the list of its pages.
\<close>

fun open_all :: "(py_error + pdf_page list) list \<Rightarrow> py_error + pdf_page list list" where
  "open_all [] = Inr []"
| "open_all (Inl e # files) = Inl e"
| "open_all (Inr pdf # files) =
     (case open_all files of Inl e \<Rightarrow> Inl e | Inr pdfs \<Rightarrow> Inr (pdf # pdfs))"

record run_report =
  total_pages :: nat
  completed_pages :: nat
  progress :: "rat list"
  buckets :: "(string \<times> page_ref list) list"
  written :: "(string \<times> page_ref list) list"
  logged :: "py_error option"

text \<open>
  \<open>process_files\<close> of version 0.0.2. \<open>Inl e\<close>: the exception \<open>e\<close> of \<open>load_templates\<close>
  or of the page count reached the \<open>except\<close> of line 156 before any page was processed.
  Otherwise the report holds the two counters at the end, the values reported, the
  buckets, the PDFs \<open>create_company_pdfs\<close> wrote, and the exception of
  \<open>create_company_pdfs\<close> that line 156 caught, if any.
\<close>

definition process_files ::
  "template_file \<Rightarrow> (py_error + pdf_page list) list \<Rightarrow> nat list list \<Rightarrow> assembly_faults
     \<Rightarrow> py_error + run_report" where
  "process_files source pdf_files schedules faults =
     (case load_templates source of
        Inl e \<Rightarrow> Inl e
      | Inr templates \<Rightarrow>
          (case open_all pdf_files of
             Inl e \<Rightarrow> Inl e
           | Inr pdfs \<Rightarrow>
               (let total = sum_list (map length pdfs);
                    b = dispatch templates total 0 pdfs schedules
                          \<lparr>shared_state = \<lparr>company_images = [], lists = []\<rparr>,
                           completed = 0, reported = []\<rparr>;
                    bs = buckets_of (shared_state b)
                in case create_company_pdfs faults bs of
                     (pdfs_written, err) \<Rightarrow>
                       Inr \<lparr>total_pages = total, completed_pages = completed b,
                            progress = reported b, buckets = bs,
                            written = pdfs_written, logged = err\<rparr>)))"

section \<open>An invariant of the shared dictionary\<close>

text \<open>
  While the workers of PDF number \<open>d\<close> run, under any schedule: every address in the
  dictionary is the address of a list; every list is ordered by PDF index, holds pages
  of the PDFs up to \<open>d\<close> only, and holds only pages with the property \<open>P\<close> that the
  pages of all workers have.
\<close>

definition good_list :: "nat \<Rightarrow> (page_ref \<Rightarrow> bool) \<Rightarrow> page_ref list \<Rightarrow> bool" where
  "good_list d P l = (sorted (map fst l) \<and> list_all (\<lambda>r. fst r \<le> d \<and> P r) l)"

definition good_store :: "nat \<Rightarrow> (page_ref \<Rightarrow> bool) \<Rightarrow> shared \<Rightarrow> bool" where
  "good_store d P s =
     (list_all (\<lambda>(company, a). a < length (lists s)) (company_images s)
      \<and> list_all (good_list d P) (lists s))"

fun good_worker :: "nat \<Rightarrow> (page_ref \<Rightarrow> bool) \<Rightarrow> nat \<Rightarrow> worker \<Rightarrow> bool" where
  "good_worker d P n (Check company img) = (fst img = d \<and> P img)"
| "good_worker d P n (Assign company img) = (fst img = d \<and> P img)"
| "good_worker d P n (Lookup company img) = (fst img = d \<and> P img)"
| "good_worker d P n (Append a img) = (a < n \<and> fst img = d \<and> P img)"
| "good_worker d P n Finished = True"

section \<open>The order of a bucket\<close>

text \<open>
  The order the design document asks of a bucket: the pages of all PDFs in the order of
  the PDFs, each PDF's pages by ascending page number.
\<close>

definition enumeration_order :: "'a list list \<Rightarrow> page_ref list" where
  "enumeration_order pdfs =
     concat (map (\<lambda>(pdf_index, pdf). map (\<lambda>page_number. (pdf_index, page_number)) [0 ..< length pdf])
               (enumerate 0 pdfs))"

text \<open>
  For the run without interleaving: the dictionary has no key twice, no two keys share
  a list, and every address is the address of a list.
\<close>

definition wf_store :: "shared \<Rightarrow> bool" where
  "wf_store s =
     (distinct (map fst (company_images s)) \<and> distinct (map snd (company_images s))
      \<and> list_all (\<lambda>(company, a). a < length (lists s)) (company_images s))"

text \<open>
  The buckets after the pages \<open>seen\<close> have been processed one after the other: the
  bucket of a company holds exactly the pages of \<open>seen\<close> classified under it, in the
  order of \<open>seen\<close>, and a company without such a page (or with the empty name) has no
  bucket. \<open>cls\<close> gives the classification of a page.
\<close>

definition buckets_hold ::
  "(page_ref \<Rightarrow> py_error + string option) \<Rightarrow> page_ref list \<Rightarrow> shared \<Rightarrow> bool" where
  "buckets_hold cls seen s =
     (\<forall>company. map_of (buckets_of s) company
        = (if company = [] \<or> filter (\<lambda>r. cls r = Inr (Some company)) seen = [] then None
           else Some (filter (\<lambda>r. cls r = Inr (Some company)) seen)))"

text \<open>
  The pages classified under a company, in the order the design document asks for.
\<close>

definition pages_of_company :: "json_value \<Rightarrow> pdf_page list list \<Rightarrow> string \<Rightarrow> page_ref list" where
  "pages_of_company templates pdfs company =
     filter (\<lambda>(d, n). classify_page templates (pdfs ! d ! n) = Inr (Some company))
       (enumeration_order pdfs)"

section \<open>Properties of \<open>compare_layouts\<close>\<close>

lemma foldl_box_step_count:
  "foldl box_step acc ps = acc + length (filter (\<lambda>p. box_step 0 p = 1) ps)"
proof (induction ps arbitrary: acc)
  case Nil
  show ?case by simp
next
  case (Cons p ps)
  have "box_step acc p = acc + (if box_step 0 p = 1 then 1 else 0)"
    by (cases p) (simp add: box_step_def Let_def)
  then show ?case
    using Cons.IH [of "box_step acc p"] by simp
qed

lemma round_double_minus: "round_double (- q) = - round_double q"
  by (simp add: round_double_def round_magnitude_def)

lemma float_abs_to_float: "float_abs (to_float (- q)) = float_abs (to_float q)"
  by (simp add: to_float_def round_double_minus Let_def)

lemma float_abs_sub_commute: "float_abs (float_sub y x) = float_abs (float_sub x y)"
proof (cases x; cases y)
  fix a b
  assume "x = Finite a" "y = Finite b"
  then show ?thesis using float_abs_to_float [of "a - b"] by simp
qed simp_all

lemma box_step_swap: "box_step 0 (b, a) = box_step 0 (a, b)"
  by (simp add: box_step_def Let_def float_abs_sub_commute [of "fst (bounding_box a)"]
      float_abs_sub_commute [of "fst (snd (bounding_box a))"])

lemma round_double_four_fifths:
  "round_double (4 / 5) = 3602879701896397 / 4503599627370496"
  by code_simp

lemma foldl_box_step_commute:
  "foldl box_step 0 (zip features2 features1) = foldl box_step 0 (zip features1 features2)"
proof -
  have "zip features2 features1 = map (\<lambda>(a, b). (b, a)) (zip features1 features2)"
    by (rule zip_commute)
  then have "filter (\<lambda>p. box_step 0 p = 1) (zip features2 features1)
      = map (\<lambda>(a, b). (b, a)) (filter (\<lambda>p. box_step 0 p = 1) (zip features1 features2))"
    by (simp add: filter_map o_def case_prod_beta box_step_swap)
  then show ?thesis
    by (simp add: foldl_box_step_count)
qed

text \<open>
  Claim C3. With both feature lists empty the code divides \<open>0\<close> by \<open>max(0, 0) = 0\<close>:
  \<open>compare_layouts([], [])\<close> raises \<open>ZeroDivisionError\<close>; it does not return the
  similarity 0.
\<close>

theorem compare_layouts_empty_raises:
  "compare_layouts [] [] = Inl ZeroDivisionError"
  by (simp add: compare_layouts_def)

text \<open>
  Claim C10. Layout similarity is symmetric: when at least one of the two feature lists
  is non-empty, \<open>compare_layouts\<close> returns a value, and the same value with the arguments
  swapped.
\<close>

theorem compare_layouts_symmetric:
  "\<not> (features1 = [] \<and> features2 = []) \<Longrightarrow>
     (\<exists>s. compare_layouts features1 features2 = Inr s \<and> compare_layouts features2 features1 = Inr s)"
  by (auto simp: compare_layouts_def Let_def foldl_box_step_commute max.commute)

theorem compare_layouts_symmetric_witness:
  "\<not> ([\<lparr>block_text = ''Invoice'', bounding_box = (Finite 72, Finite 40, Finite 200, Finite 60)\<rparr>] = []
      \<and> [\<lparr>block_text = ''INVOICE'', bounding_box = (Finite 75, Finite 45, Finite 210, Finite 66)\<rparr>,
          \<lparr>block_text = ''Total'', bounding_box = (Finite 72, Finite 700, Finite 120, Finite 715)\<rparr>] = [])
   \<and> compare_layouts [\<lparr>block_text = ''Invoice'', bounding_box = (Finite 72, Finite 40, Finite 200, Finite 60)\<rparr>]
        [\<lparr>block_text = ''INVOICE'', bounding_box = (Finite 75, Finite 45, Finite 210, Finite 66)\<rparr>,
         \<lparr>block_text = ''Total'', bounding_box = (Finite 72, Finite 700, Finite 120, Finite 715)\<rparr>] = Inr (1 / 2)
   \<and> compare_layouts [\<lparr>block_text = ''INVOICE'', bounding_box = (Finite 75, Finite 45, Finite 210, Finite 66)\<rparr>,
         \<lparr>block_text = ''Total'', bounding_box = (Finite 72, Finite 700, Finite 120, Finite 715)\<rparr>]
        [\<lparr>block_text = ''Invoice'', bounding_box = (Finite 72, Finite 40, Finite 200, Finite 60)\<rparr>] = Inr (1 / 2)"
proof -
  let ?f1 = "[\<lparr>block_text = ''Invoice'', bounding_box = (Finite 72, Finite 40, Finite 200, Finite 60)\<rparr>]"
  let ?f2 = "[\<lparr>block_text = ''INVOICE'', bounding_box = (Finite 75, Finite 45, Finite 210, Finite 66)\<rparr>,
              \<lparr>block_text = ''Total'', bounding_box = (Finite 72, Finite 700, Finite 120, Finite 715)\<rparr>]"
  have v: "compare_layouts ?f1 ?f2 = Inr (1 / 2)"
    by code_simp
  have "\<not> (?f1 = [] \<and> ?f2 = [])" by simp
  from compare_layouts_symmetric [OF this] v show ?thesis by auto
qed

section \<open>Properties of the classifier\<close>

lemma float_close_code:
  "float_less (float_abs (float_sub x u)) (Finite 10) = float_close x u"
  by (cases x; cases u) (simp_all add: to_float_def Let_def)

lemma box_step_less_than_10: "box_step 0 (a, b) = Suc 0 \<longleftrightarrow> less_than_10_apart a b"
  by (cases "bounding_box a"; cases "bounding_box b")
     (simp add: box_step_def less_than_10_apart_def Let_def float_close_code)

lemma compare_layouts_spec:
  assumes "\<not> (features1 = [] \<and> features2 = [])"
  shows "compare_layouts features1 features2
           = Inr (float_layout_similarity features1 features2)"
proof -
  have "filter (\<lambda>p. box_step 0 p = 1) (zip features1 features2)
          = filter (\<lambda>(a, b). less_than_10_apart a b) (zip features1 features2)"
    by (rule filter_cong) (auto simp: box_step_less_than_10)
  with assms show ?thesis
    by (auto simp: compare_layouts_def float_layout_similarity_def int_true_div_def Let_def
        foldl_box_step_count)
qed

lemma template_matches_spec:
  "\<not> (page_features = [] \<and> layout_features rules = Some []) \<Longrightarrow>
     template_matches text page_features rules
       = Inr (float_template_matches text page_features rules)"
  by (cases "layout_features rules")
     (auto simp: template_matches_def float_template_matches_def compare_layouts_spec
        round_double_four_fifths)

text \<open>
  \<open>identify_company\<close> (version 0.0.1) is total: it returns the first template, in the
  order of the file, one of whose keywords occurs in the text.
\<close>

lemma identify_company_first_match:
  "identify_company text ts =
     map_option fst
       (find (\<lambda>(company, rules). list_ex (\<lambda>keyword. sublist keyword text) (header_keywords rules)) ts)"
  by (induction ts) auto

text \<open>
  \<open>identify_page\<close> (version 0.0.2), when it returns, returns the first template, in the
  order of the file, whose condition evaluates to true, and \<open>None\<close> when there is none.
\<close>

lemma identify_page_first_match:
  "identify_page text page_features ts = Inr result \<Longrightarrow>
     result = map_option fst
       (find (\<lambda>(company, rules). template_matches text page_features rules = Inr True) ts)"
proof (induction ts)
  case Nil
  then show ?case by simp
next
  case (Cons t ts)
  obtain c r where t: "t = (c, r)" by (cases t)
  show ?case
  proof (cases "template_matches text page_features r")
    case (Inl e)
    with Cons.prems t show ?thesis by simp
  next
    case (Inr b)
    with Cons t show ?thesis by (cases b) simp_all
  qed
qed

lemma identify_page_None:
  "identify_page text page_features ts = Inr None \<longleftrightarrow>
     (\<forall>(c, r) \<in> set ts. template_matches text page_features r = Inr False)"
  by (induction ts) (auto split: sum.splits bool.splits)

lemma identify_page_returns:
  "page_features \<noteq> [] \<Longrightarrow> \<exists>result. identify_page text page_features ts = Inr result"
  by (induction ts) (auto simp: template_matches_spec split: sum.splits bool.splits)

text \<open>
  Claim C1. First-match-wins fails where an earlier template declares an empty list of
  layout features and the page has no text block: \<open>identify_page\<close> raises
  \<open>ZeroDivisionError\<close> at that template. On a blank page no template matches and the
  classifier does not return "unmatched"; on a text holding the keywords of both
  templates it does not return the earlier one.
\<close>

theorem identify_page_raises_before_first_match:
  "identify_page [] []
     [(''ACME'', \<lparr>header_keywords = [''ACME''], layout_features = Some [], regex_patterns = []\<rparr>),
      (''Globex'', \<lparr>header_keywords = [''Globex''], layout_features = None, regex_patterns = []\<rparr>)]
     = Inl ZeroDivisionError
   \<and> identify_page ''ACME for Globex'' []
     [(''ACME'', \<lparr>header_keywords = [''ACME''], layout_features = Some [], regex_patterns = []\<rparr>),
      (''Globex'', \<lparr>header_keywords = [''Globex''], layout_features = None, regex_patterns = []\<rparr>)]
     = Inl ZeroDivisionError"
  by (simp add: template_matches_def compare_layouts_def)

text \<open>
  The differences are rounded before they are compared with 10. The doubles nearest to
  0.1 and 10.1 are less than 10 apart, but their float difference is exactly 10: the
  pair does not count. The float difference of the doubles nearest to 6.08 and 16.08 is
  the double just below 10: the pair counts.
\<close>

lemma float_close_examples:
  "\<bar>round_double (1 / 10) - round_double (101 / 10)\<bar> < 10"
  "float_sub (Finite (round_double (1 / 10))) (Finite (round_double (101 / 10))) = Finite (- 10)"
  "\<not> float_close (Finite (round_double (1 / 10))) (Finite (round_double (101 / 10)))"
  "float_sub (Finite (round_double (608 / 100))) (Finite (round_double (1608 / 100)))
     = Finite (- (5629499534213119 / 562949953421312))"
  "float_close (Finite (round_double (608 / 100))) (Finite (round_double (1608 / 100)))"
  by code_simp+




section \<open>Properties of template loading\<close>


text \<open>
  On a dictionary that holds templates only, \<open>identify_page\<close> is the function of the
  section on the classifier.
\<close>

lemma identify_page_items_templates:
  "identify_page_items text page_features (map (\<lambda>(company, rules). (company, Rules rules)) ts)
     = identify_page text page_features ts"
  by (induction ts) (auto simp: rules_match_def split: sum.splits bool.splits)

lemma identify_page_json_templates:
  "identify_page_json text page_features (template_dictionary ts)
     = identify_page text page_features ts"
  by (simp add: identify_page_json_def template_dictionary_def identify_page_items_templates)

text \<open>
  An entry without header keywords, or that is not an object, raises for every page that
  reaches it, that is, for every page that none of the templates before it matches.
\<close>

lemma identify_page_items_defect:
  "identify_page_items text page_features
       (map (\<lambda>(company, rules). (company, Rules rules)) ts @ (company, ObjectWithoutKeywords) # rest)
     = (case identify_page text page_features ts of Inr None \<Rightarrow> Inl KeyError | result \<Rightarrow> result)"
  "identify_page_items text page_features
       (map (\<lambda>(company, rules). (company, Rules rules)) ts @ (company, NotAnObject) # rest)
     = (case identify_page text page_features ts of Inr None \<Rightarrow> Inl TypeError | result \<Rightarrow> result)"
  by (induction ts; auto simp: rules_match_def split: sum.splits bool.splits option.splits)+

section \<open>Properties of field extraction (version 0.0.1)\<close>

lemma map_of_foldl_update:
  "distinct (map fst ps) \<Longrightarrow>
     map_of (foldl (\<lambda>extracted_info (key, pattern). AList.update key (f pattern) extracted_info) acc ps) k
       = (case map_of ps k of None \<Rightarrow> map_of acc k | Some pattern \<Rightarrow> Some (f pattern))"
proof (induction ps arbitrary: acc)
  case Nil
  show ?case by simp
next
  case (Cons kp ps)
  obtain k' p where kp: "kp = (k', p)" by (cases kp)
  from Cons.prems kp have d: "distinct (map fst ps)" and fresh: "k' \<notin> fst ` set ps" by auto
  from fresh have none: "map_of ps k' = None" by (simp add: map_of_eq_None_iff)
  show ?case
  proof (cases "k = k'")
    case True
    with Cons.IH [OF d, of "AList.update k' (f p) acc"] kp none show ?thesis
      by (simp add: update_conv')
  next
    case False
    with Cons.IH [OF d, of "AList.update k' (f p) acc"] kp show ?thesis
      by (simp add: update_conv' split: option.splits)
  qed
qed

lemma extract_data_lookup:
  assumes "map_of templates c = Some rules" and "distinct (map fst (regex_patterns rules))"
  shows "map_of (extract_data re_search text templates (Some c)) key
           = map_option (\<lambda>pattern. re_search pattern text) (map_of (regex_patterns rules) key)"
  using assms
  by (simp add: extract_data_def map_of_foldl_update [where f = "\<lambda>pattern. re_search pattern text"]
      split: option.splits)

lemma order_number_of_lookup:
  "order_number_of extracted_data
     = (case map_of extracted_data ''Order Number'' of None \<Rightarrow> None | Some v \<Rightarrow> v)"
  by (cases extracted_data) (simp_all add: order_number_of_def)

lemma file_name_fallback:
  "order_number_of extracted_data = None \<Longrightarrow>
     file_name extracted_data page_number = ''page_'' @ str_nat (page_number + 1) @ ''.png''"
  by (simp add: file_name_def)

lemma extract_data_unmatched: "extract_data re_search text templates None = []"
  by (simp add: extract_data_def)

text \<open>
  Claim C9. For a company of the templates, \<open>extract_data\<close> records under each declared
  field what \<open>re.search\<close> finds for its pattern in the text: the text of the first match,
  or \<open>None\<close>; and when the "Order Number" field is not declared or its pattern has no
  match, the name of the image is \<open>page_<page_number + 1>.png\<close>, and this is the name
  under which \<open>process_page\<close> saves the image of a page of that company.
\<close>

theorem extract_data_fields_and_fallback_name:
  assumes "map_of templates c = Some rules" and "distinct (map fst (regex_patterns rules))"
  shows "map_of (extract_data re_search text templates (Some c)) key
           = map_option (\<lambda>pattern. re_search pattern text) (map_of (regex_patterns rules) key)
     \<and> ((case map_of (regex_patterns rules) ''Order Number'' of
            None \<Rightarrow> True | Some pattern \<Rightarrow> re_search pattern text = None)
          \<longrightarrow> file_name (extract_data re_search text templates (Some c)) page_number
                = ''page_'' @ str_nat (page_number + 1) @ ''.png''
            \<and> (images_count page = Inr m \<and> page_number < m \<and> ocr_text page = Inr text
                 \<and> identify_company text templates = Some c \<and> c \<noteq> [] \<and> save_error page = None
                \<longrightarrow> process_page_v1 re_search templates page_number page
                      = Processed (Some (c, ''page_'' @ str_nat (page_number + 1) @ ''.png''))))"
proof -
  have l: "map_of (extract_data re_search text templates (Some c)) k
           = map_option (\<lambda>pattern. re_search pattern text) (map_of (regex_patterns rules) k)" for k
    using assms by (rule extract_data_lookup)
  have n: "file_name (extract_data re_search text templates (Some c)) page_number
                = ''page_'' @ str_nat (page_number + 1) @ ''.png''"
    if "case map_of (regex_patterns rules) ''Order Number'' of
            None \<Rightarrow> True | Some pattern \<Rightarrow> re_search pattern text = None"
  proof -
    from that have "order_number_of (extract_data re_search text templates (Some c)) = None"
      by (simp add: order_number_of_lookup l split: option.splits)
    then show ?thesis by (rule file_name_fallback)
  qed
  have "process_page_v1 re_search templates page_number page
          = Processed (Some (c, file_name (extract_data re_search text templates (Some c)) page_number))"
    if "images_count page = Inr m" "page_number < m" "ocr_text page = Inr text"
       "identify_company text templates = Some c" "c \<noteq> []" "save_error page = None"
    using that by (simp add: process_page_v1_def Let_def)
  with l n show ?thesis by simp
qed

theorem extract_data_fields_and_fallback_name_witness:
  "map_of [(''ACME'', \<lparr>header_keywords = [''ACME''], layout_features = None,
                       regex_patterns = [(''Order Number'', ''PO-[0-9]+''), (''Total'', ''[0-9]+'')]\<rparr>)]
      ''ACME''
     = Some \<lparr>header_keywords = [''ACME''], layout_features = None,
             regex_patterns = [(''Order Number'', ''PO-[0-9]+''), (''Total'', ''[0-9]+'')]\<rparr>
   \<and> distinct (map fst [(''Order Number'', ''PO-[0-9]+''), (''Total'', ''[0-9]+'')])
   \<and> map_of (extract_data (\<lambda>pattern text. if pattern = ''[0-9]+'' then Some ''42'' else None)
        ''ACME total 42''
        [(''ACME'', \<lparr>header_keywords = [''ACME''], layout_features = None,
                     regex_patterns = [(''Order Number'', ''PO-[0-9]+''), (''Total'', ''[0-9]+'')]\<rparr>)]
        (Some ''ACME'')) ''Total'' = Some (Some ''42'')
   \<and> identify_company ''ACME total 42''
        [(''ACME'', \<lparr>header_keywords = [''ACME''], layout_features = None,
                     regex_patterns = [(''Order Number'', ''PO-[0-9]+''), (''Total'', ''[0-9]+'')]\<rparr>)]
       = Some ''ACME''
   \<and> process_page_v1 (\<lambda>pattern text. if pattern = ''[0-9]+'' then Some ''42'' else None)
        [(''ACME'', \<lparr>header_keywords = [''ACME''], layout_features = None,
                     regex_patterns = [(''Order Number'', ''PO-[0-9]+''), (''Total'', ''[0-9]+'')]\<rparr>)]
        2 \<lparr>images_count = Inr 3, ocr_text = Inr ''ACME total 42'', save_error = None\<rparr>
       = Processed (Some (''ACME'', ''page_3.png''))"
proof -
  let ?rules = "\<lparr>header_keywords = [''ACME''], layout_features = None,
                 regex_patterns = [(''Order Number'', ''PO-[0-9]+''), (''Total'', ''[0-9]+'')]\<rparr>"
  let ?re = "\<lambda>pattern text :: string. if pattern = ''[0-9]+'' then Some ''42'' else None"
  let ?page = "\<lparr>images_count = Inr 3, ocr_text = Inr ''ACME total 42'', save_error = None\<rparr>"
  have h1: "map_of [(''ACME'', ?rules)] ''ACME'' = Some ?rules" by simp
  have h2: "distinct (map fst (regex_patterns ?rules))" by simp
  have n: "str_nat (2 + 1) = ''3''" by (simp add: str_nat.simps)
  have c: "identify_company ''ACME total 42'' [(''ACME'', ?rules)] = Some ''ACME''"
    by (simp add: sublist_code(3))
  from extract_data_fields_and_fallback_name
         [OF h1 h2, of ?re "''ACME total 42''" "''Total''" 2 ?page 3]
       extract_data_fields_and_fallback_name
         [OF h1 h2, of ?re "''ACME total 42''" "''Order Number''" 2 ?page 3]
       n c
  show ?thesis by simp
qed

section \<open>Properties of the assembly (version 0.0.2)\<close>

lemma create_company_pdfs_subset:
  "set (fst (create_company_pdfs faults bs)) \<subseteq> set bs"
  by (induction faults bs rule: create_company_pdfs.induct) (auto split: prod.splits)

text \<open>
  Claim C8, as stated. Creating the folder of the first company fails; every write for
  the second company would succeed, and still no PDF is written for it: the exception
  leaves the loop of \<open>create_company_pdfs\<close>.
\<close>

theorem create_company_pdfs_abort_counterexample:
  "\<not> category_fails
        \<lparr>makedirs_fails = (\<lambda>c. c = ''ACME''), image_fails = (\<lambda>c i. False),
         output_fails = (\<lambda>c. False)\<rparr> ''Globex'' [(0, 1)]
   \<and> create_company_pdfs
        \<lparr>makedirs_fails = (\<lambda>c. c = ''ACME''), image_fails = (\<lambda>c i. False),
         output_fails = (\<lambda>c. False)\<rparr>
        [(''ACME'', [(0, 0)]), (''Globex'', [(0, 1)])] = ([], Some OSError)"
  by (simp add: category_fails_def)

text \<open>
  Claim C8, amended. \<open>create_company_pdfs\<close> writes the PDFs of the companies that come
  before the first company with a failing folder creation or write, in the order of the
  dictionary, and nothing for that company or any later one; the exception is returned
  to \<open>process_files\<close>.
\<close>

theorem create_company_pdfs_stops_at_first_failure:
  "create_company_pdfs faults bs
     = (takeWhile (\<lambda>(company, images). \<not> category_fails faults company images) bs,
        if list_ex (\<lambda>(company, images). category_fails faults company images) bs
        then Some OSError else None)"
  by (induction faults bs rule: create_company_pdfs.induct)
     (simp_all add: category_fails_def)

section \<open>The invariant holds under every schedule\<close>

lemma good_worker_mono: "good_worker d P n w \<Longrightarrow> n \<le> n' \<Longrightarrow> good_worker d P n' w"
  by (cases w) auto

lemma good_list_append:
  assumes "good_list d P l" and "fst img = d" and "P img"
  shows "good_list d P (l @ [img])"
  using assms by (auto simp: good_list_def sorted_append list_all_iff)

lemma good_list_later: "good_list d P l \<Longrightarrow> good_list (Suc d) P l"
  by (auto simp: good_list_def list_all_iff)

lemma good_store_later: "good_store d P s \<Longrightarrow> good_store (Suc d) P s"
  by (auto simp: good_store_def list_all_iff good_list_later)

lemma list_all_update_entry:
  "list_all Q al \<Longrightarrow> Q (k, v) \<Longrightarrow> list_all Q (AList.update k v al)"
  by (induction al) auto

lemma step_good:
  assumes "good_store d P s" and "good_worker d P (length (lists s)) w"
    and "step w s = (w', s')"
  shows "good_store d P s' \<and> good_worker d P (length (lists s')) w'
           \<and> length (lists s) \<le> length (lists s')"
proof (cases w)
  case (Check company img)
  with assms show ?thesis by (auto split: option.splits)
next
  case (Assign company img)
  with assms(3) have s': "s' = s\<lparr>company_images := AList.update company (length (lists s)) (company_images s),
        lists := lists s @ [[]]\<rparr>" and w': "w' = Lookup company img" by auto
  from assms(1) have "list_all (\<lambda>(c, a). a < Suc (length (lists s))) (company_images s)"
    by (auto simp: good_store_def list_all_iff)
  then have "list_all (\<lambda>(c, a). a < Suc (length (lists s)))
               (AList.update company (length (lists s)) (company_images s))"
    by (rule list_all_update_entry) simp
  moreover have "good_list d P []" by (simp add: good_list_def)
  ultimately have "good_store d P s'"
    using assms(1) s' by (simp add: good_store_def)
  with assms(2) Assign w' s' show ?thesis by simp
next
  case (Lookup company img)
  show ?thesis
  proof (cases "map_of (company_images s) company")
    case None
    with assms Lookup show ?thesis by auto
  next
    case (Some a)
    then have "(company, a) \<in> set (company_images s)" by (rule map_of_SomeD)
    with assms(1) have "a < length (lists s)" by (auto simp: good_store_def list_all_iff)
    with assms Lookup Some show ?thesis by auto
  qed
next
  case (Append a img)
  with assms(2) have a: "a < length (lists s)" and i: "fst img = d" "P img" by auto
  from assms(3) Append have s': "s' = s\<lparr>lists := (lists s)[a := lists s ! a @ [img]]\<rparr>"
    and w': "w' = Finished" by auto
  from assms(1) a have "good_list d P (lists s ! a)"
    by (auto simp: good_store_def list_all_iff)
  then have "good_list d P (lists s ! a @ [img])" using i by (rule good_list_append)
  moreover have "set ((lists s)[a := lists s ! a @ [img]])
                   \<subseteq> insert (lists s ! a @ [img]) (set (lists s))"
    by (rule set_update_subset_insert)
  ultimately have "list_all (good_list d P) ((lists s)[a := lists s ! a @ [img]])"
    using assms(1) by (auto simp: good_store_def list_all_iff)
  with assms(1) s' w' show ?thesis by (simp add: good_store_def)
next
  case Finished
  with assms show ?thesis by auto
qed

lemma run_schedule_good:
  assumes "good_store d P s" and "list_all (good_worker d P (length (lists s))) ws"
    and "run_schedule sch ws s = (ws', s')"
  shows "good_store d P s' \<and> list_all (good_worker d P (length (lists s'))) ws'"
  using assms
proof (induction sch arbitrary: ws s)
  case Nil
  then show ?case by simp
next
  case (Cons k ks)
  show ?case
  proof (cases "k < length ws")
    case False
    with Cons show ?thesis by simp
  next
    case True
    obtain w1 s1 where st: "step (ws ! k) s = (w1, s1)" by (cases "step (ws ! k) s")
    from Cons.prems(2) True have "good_worker d P (length (lists s)) (ws ! k)"
      by (simp add: list_all_length)
    from step_good [OF Cons.prems(1) this st]
    have g1: "good_store d P s1" and w1: "good_worker d P (length (lists s1)) w1"
      and le: "length (lists s) \<le> length (lists s1)" by auto
    from Cons.prems(2) le have "list_all (good_worker d P (length (lists s1))) ws"
      by (auto simp: list_all_iff intro: good_worker_mono)
    with w1 have "list_all (good_worker d P (length (lists s1))) (ws[k := w1])"
      by (auto simp: list_all_iff dest!: subsetD [OF set_update_subset_insert])
    moreover from Cons.prems(3) True st have "run_schedule ks (ws[k := w1]) s1 = (ws', s')"
      by simp
    ultimately show ?thesis using Cons.IH g1 by blast
  qed
qed

lemma finish_good:
  assumes "good_store d P s" and "good_worker d P (length (lists s)) w"
  shows "good_store d P (finish w s) \<and> length (lists s) \<le> length (lists (finish w s))"
proof -
  obtain w1 s1 where 1: "step w s = (w1, s1)" by (cases "step w s")
  obtain w2 s2 where 2: "step w1 s1 = (w2, s2)" by (cases "step w1 s1")
  obtain w3 s3 where 3: "step w2 s2 = (w3, s3)" by (cases "step w2 s2")
  obtain w4 s4 where 4: "step w3 s3 = (w4, s4)" by (cases "step w3 s3")
  note a = step_good [OF assms 1]
  note b = step_good [OF a [THEN conjunct1] a [THEN conjunct2, THEN conjunct1] 2]
  note c = step_good [OF b [THEN conjunct1] b [THEN conjunct2, THEN conjunct1] 3]
  note e = step_good [OF c [THEN conjunct1] c [THEN conjunct2, THEN conjunct1] 4]
  have "finish w s = s4" using 1 2 3 4 by (simp add: finish_def)
  with a b c e show ?thesis by auto
qed

lemma drain_good:
  assumes "good_store d P s" and "list_all (good_worker d P (length (lists s))) ws"
  shows "good_store d P (drain ws s)"
  using assms
proof (induction ws arbitrary: s)
  case Nil
  then show ?case by simp
next
  case (Cons w ws)
  from Cons.prems have w: "good_worker d P (length (lists s)) w"
    and ws: "list_all (good_worker d P (length (lists s))) ws" by auto
  from finish_good [OF Cons.prems(1) w]
  have g: "good_store d P (finish w s)"
    and le: "length (lists s) \<le> length (lists (finish w s))" by auto
  from ws le have "list_all (good_worker d P (length (lists (finish w s)))) ws"
    by (auto simp: list_all_iff intro: good_worker_mono)
  with Cons.IH [OF g] show ?case by simp
qed

lemma start_worker_good:
  assumes "\<And>company. classify_page templates page = Inr (Some company) \<Longrightarrow> company \<noteq> []
             \<Longrightarrow> P (d, n)"
  shows "good_worker d P k (start_worker templates d n page)"
  using assms by (auto simp: start_worker_def split: sum.splits option.splits)

lemma run_pdf_good:
  assumes "good_store d P s"
    and "\<And>n company. n < length pdf \<Longrightarrow> classify_page templates (pdf ! n) = Inr (Some company)
           \<Longrightarrow> company \<noteq> [] \<Longrightarrow> P (d, n)"
  shows "good_store d P (run_pdf templates d pdf sch s)"
proof -
  let ?ws = "map (\<lambda>(page_number, page). start_worker templates d page_number page)
               (enumerate 0 pdf)"
  obtain ws' s' where r: "run_schedule sch ?ws s = (ws', s')"
    by (cases "run_schedule sch ?ws s")
  have "list_all (good_worker d P (length (lists s))) ?ws"
    using assms(2)
    by (auto simp: list_all_length nth_enumerate_eq intro!: start_worker_good)
  from run_schedule_good [OF assms(1) this r] have "good_store d P (drain ws' s')"
    by (auto intro: drain_good)
  with r show ?thesis by (simp add: run_pdf_def)
qed

lemma dispatch_good:
  assumes "good_store d P (shared_state b)"
    and "\<And>k n company. k < length pdfs \<Longrightarrow> n < length (pdfs ! k)
           \<Longrightarrow> classify_page templates (pdfs ! k ! n) = Inr (Some company)
           \<Longrightarrow> company \<noteq> [] \<Longrightarrow> P (d + k, n)"
  shows "\<exists>d'. good_store d' P (shared_state (dispatch templates tp d pdfs schedules b))"
  using assms
proof (induction pdfs arbitrary: d schedules b)
  case Nil
  then show ?case by auto
next
  case (Cons pdf pdfs)
  let ?b = "\<lparr>shared_state =
          run_pdf templates d pdf (case schedules of [] \<Rightarrow> [] | sch # _ \<Rightarrow> sch)
            (shared_state b),
        completed = completed b + length pdf,
        reported = reported b
          @ map (\<lambda>completed_pages. of_nat completed_pages / of_nat tp * 100)
              [completed b + 1 ..< completed b + length pdf + 1]\<rparr>"
  have "good_store d P (shared_state ?b)"
    using Cons.prems(1) Cons.prems(2) [of 0] by (auto intro!: run_pdf_good)
  then have g: "good_store (Suc d) P (shared_state ?b)" by (rule good_store_later)
  have "\<exists>d'. good_store d' P (shared_state (dispatch templates tp (Suc d) pdfs (tl schedules) ?b))"
  proof (rule Cons.IH [OF g])
    fix k n company
    assume "k < length pdfs" "n < length (pdfs ! k)"
      "classify_page templates (pdfs ! k ! n) = Inr (Some company)" "company \<noteq> []"
    with Cons.prems(2) [of "Suc k" n company] show "P (Suc d + k, n)" by simp
  qed
  then show ?case by simp
qed

lemma buckets_of_good:
  assumes "good_store d P s" and "(company, l) \<in> set (buckets_of s)"
  shows "sorted (map fst l) \<and> list_all P l"
proof -
  from assms(2) obtain a where "(company, a) \<in> set (company_images s)" and l: "l = lists s ! a"
    by (auto simp: buckets_of_def)
  with assms(1) have "a < length (lists s)" by (auto simp: good_store_def list_all_iff)
  with assms(1) l have "good_list d P l" by (auto simp: good_store_def list_all_iff)
  then show ?thesis by (auto simp: good_list_def list_all_iff)
qed

section \<open>Workers that run one after the other\<close>

lemma update_fresh_key: "k \<notin> fst ` set al \<Longrightarrow> AList.update k v al = al @ [(k, v)]"
  by (induction al) auto

lemma map_of_map_values:
  "map_of (map (\<lambda>(k, v). (k, f v)) al) k' = map_option f (map_of al k')"
  by (induction al) auto

lemma map_of_buckets_of:
  "map_of (buckets_of s) company = map_option (\<lambda>a. lists s ! a) (map_of (company_images s) company)"
  by (simp add: buckets_of_def map_of_map_values)

lemma same_address_same_key:
  assumes "distinct (map snd al)" and "map_of al k = Some a" and "map_of al k' = Some a"
  shows "k = k'"
proof -
  from assms(2,3) have "(k, a) \<in> set al" "(k', a) \<in> set al" by (auto dest: map_of_SomeD)
  moreover from assms(1) have "inj_on snd (set al)" by (simp add: distinct_map)
  ultimately have "(k, a) = (k', a)"
    using inj_onD [of snd "set al" "(k, a)" "(k', a)"] by simp
  then show ?thesis by simp
qed

lemma finish_new_company:
  assumes "wf_store s" and "map_of (company_images s) company = None"
  shows "wf_store (finish (Check company img) s)
     \<and> map_of (buckets_of (finish (Check company img) s))
         = (map_of (buckets_of s))(company \<mapsto> [img])"
proof -
  let ?n = "length (lists s)"
  from assms(2) have fresh: "company \<notin> fst ` set (company_images s)"
    by (simp add: map_of_eq_None_iff)
  let ?s' = "\<lparr>company_images = company_images s @ [(company, ?n)], lists = lists s @ [[img]]\<rparr>"
  let ?s1 = "s\<lparr>company_images := AList.update company ?n (company_images s),
               lists := lists s @ [[]]\<rparr>"
  have 1: "step (Check company img) s = (Assign company img, s)"
    using assms(2) by simp
  have 2: "step (Assign company img) s = (Lookup company img, ?s1)" by simp
  have 3: "step (Lookup company img) ?s1 = (Append ?n img, ?s1)"
    by (simp add: update_conv')
  have 4: "step (Append ?n img) ?s1 = (Finished, ?s')"
    using fresh by (simp add: update_fresh_key)
  have f: "finish (Check company img) s = ?s'"
    by (simp add: finish_def 1 2 3 4 del: step.simps)
  from assms(1) have small: "a < ?n" if "(c, a) \<in> set (company_images s)" for c a
    using that by (auto simp: wf_store_def list_all_iff)
  then have "?n \<notin> snd ` set (company_images s)" by force
  with assms(1) fresh have wf: "wf_store ?s'"
    by (auto simp: wf_store_def list_all_iff less_Suc_eq)
  have "map_of (buckets_of ?s') c = ((map_of (buckets_of s))(company \<mapsto> [img])) c" for c
  proof (cases "c = company")
    case True
    with assms(2) show ?thesis by (simp add: map_of_buckets_of map_add_def)
  next
    case False
    show ?thesis
    proof (cases "map_of (company_images s) c")
      case None
      with False show ?thesis by (simp add: map_of_buckets_of map_add_def)
    next
      case (Some a)
      then have "a < ?n" by (auto dest: map_of_SomeD small)
      with False Some show ?thesis by (simp add: map_of_buckets_of map_add_def nth_append)
    qed
  qed
  then have "map_of (buckets_of ?s') = (map_of (buckets_of s))(company \<mapsto> [img])" by (rule ext)
  with wf f show ?thesis by simp
qed

lemma finish_known_company:
  assumes "wf_store s" and "map_of (company_images s) company = Some a"
  shows "wf_store (finish (Check company img) s)
     \<and> map_of (buckets_of (finish (Check company img) s))
         = (map_of (buckets_of s))(company \<mapsto> lists s ! a @ [img])"
proof -
  let ?s' = "s\<lparr>lists := (lists s)[a := lists s ! a @ [img]]\<rparr>"
  have 1: "step (Check company img) s = (Lookup company img, s)"
    using assms(2) by simp
  have 2: "step (Lookup company img) s = (Append a img, s)"
    using assms(2) by simp
  have 3: "step (Append a img) s = (Finished, ?s')" by simp
  have 4: "step Finished ?s' = (Finished, ?s')" by simp
  have f: "finish (Check company img) s = ?s'"
    by (simp add: finish_def 1 2 3 4 del: step.simps)
  from assms have a: "a < length (lists s)"
    by (auto simp: wf_store_def list_all_iff dest: map_of_SomeD)
  from assms(1) have wf: "wf_store ?s'" by (simp add: wf_store_def)
  have "map_of (buckets_of ?s') c = ((map_of (buckets_of s))(company \<mapsto> lists s ! a @ [img])) c" for c
  proof (cases "c = company")
    case True
    with assms(2) a show ?thesis by (simp add: map_of_buckets_of)
  next
    case False
    show ?thesis
    proof (cases "map_of (company_images s) c")
      case None
      with False show ?thesis by (simp add: map_of_buckets_of)
    next
      case (Some a')
      with assms False have "a' \<noteq> a"
        by (auto simp: wf_store_def dest: same_address_same_key)
      with False Some show ?thesis by (simp add: map_of_buckets_of)
    qed
  qed
  then have "map_of (buckets_of ?s') = (map_of (buckets_of s))(company \<mapsto> lists s ! a @ [img])"
    by (rule ext)
  with wf f show ?thesis by simp
qed

lemma finish_Finished: "finish Finished s = s"
  by (simp add: finish_def)

lemma finish_page:
  assumes "wf_store s" and "buckets_hold cls seen s"
    and "cls (d, n) = classify_page templates page"
  shows "wf_store (finish (start_worker templates d n page) s)
     \<and> buckets_hold cls (seen @ [(d, n)]) (finish (start_worker templates d n page) s)"
proof (cases "\<exists>company. classify_page templates page = Inr (Some company) \<and> company \<noteq> []")
  case False
  then have "start_worker templates d n page = Finished"
    by (auto simp: start_worker_def split: sum.splits option.splits)
  moreover from False assms(3) have "cls (d, n) \<noteq> Inr (Some company)" if "company \<noteq> []" for company
    using that by auto
  ultimately show ?thesis
    using assms(1,2) by (auto simp: finish_Finished buckets_hold_def)
next
  case True
  then obtain company where c: "classify_page templates page = Inr (Some company)"
    and ne: "company \<noteq> []" by blast
  then have w: "start_worker templates d n page = Check company (d, n)"
    by (simp add: start_worker_def)
  let ?s' = "finish (Check company (d, n)) s"
  let ?old = "filter (\<lambda>r. cls r = Inr (Some company)) seen"
  have "wf_store ?s' \<and> map_of (buckets_of ?s') = (map_of (buckets_of s))(company \<mapsto> ?old @ [(d, n)])"
  proof (cases "map_of (company_images s) company")
    case None
    then have "map_of (buckets_of s) company = None" by (simp add: map_of_buckets_of)
    with assms(2) ne have "?old = []" by (simp add: buckets_hold_def split: if_splits)
    with finish_new_company [OF assms(1) None, of "(d, n)"] show ?thesis by simp
  next
    case (Some a)
    then have "map_of (buckets_of s) company = Some (lists s ! a)" by (simp add: map_of_buckets_of)
    with assms(2) ne have "?old = lists s ! a" by (simp add: buckets_hold_def split: if_splits)
    with finish_known_company [OF assms(1) Some, of "(d, n)"] show ?thesis by simp
  qed
  then have wf: "wf_store ?s'"
    and m: "map_of (buckets_of ?s') = (map_of (buckets_of s))(company \<mapsto> ?old @ [(d, n)])" by auto
  have "buckets_hold cls (seen @ [(d, n)]) ?s'"
    unfolding buckets_hold_def
  proof
    fix c
    show "map_of (buckets_of ?s') c
        = (if c = [] \<or> filter (\<lambda>r. cls r = Inr (Some c)) (seen @ [(d, n)]) = [] then None
           else Some (filter (\<lambda>r. cls r = Inr (Some c)) (seen @ [(d, n)])))"
    proof (cases "c = company")
      case True
      with m ne assms(3) c show ?thesis by simp
    next
      case False
      with assms(3) c have "cls (d, n) \<noteq> Inr (Some c)" by simp
      with False m assms(2) show ?thesis by (simp add: buckets_hold_def)
    qed
  qed
  with wf w show ?thesis by simp
qed

lemma drain_pages:
  assumes "wf_store s" and "buckets_hold cls seen s"
    and "\<And>j. j < length pages \<Longrightarrow> cls (d, k + j) = classify_page templates (pages ! j)"
  shows "wf_store (drain (map (\<lambda>(n, page). start_worker templates d n page) (enumerate k pages)) s)
     \<and> buckets_hold cls (seen @ map (\<lambda>(n, page). (d, n)) (enumerate k pages))
         (drain (map (\<lambda>(n, page). start_worker templates d n page) (enumerate k pages)) s)"
  using assms
proof (induction pages arbitrary: k s seen)
  case Nil
  then show ?case by simp
next
  case (Cons page pages)
  from Cons.prems(3) [of 0] have "cls (d, k) = classify_page templates page" by simp
  from finish_page [OF Cons.prems(1,2) this]
  have wf: "wf_store (finish (start_worker templates d k page) s)"
    and bh: "buckets_hold cls (seen @ [(d, k)]) (finish (start_worker templates d k page) s)"
    by auto
  have "cls (d, Suc k + j) = classify_page templates (pages ! j)" if "j < length pages" for j
    using Cons.prems(3) [of "Suc j"] that by simp
  from Cons.IH [OF wf bh this]
  show ?case by simp
qed

lemma pages_of_enumerate:
  "map (\<lambda>(n, page). (d, n)) (enumerate 0 pages) = map (\<lambda>page_number. (d, page_number)) [0 ..< length pages]"
proof -
  have "map (\<lambda>(n, page). (d, n)) (enumerate 0 pages)
          = map (\<lambda>page_number. (d, page_number)) (map fst (enumerate 0 pages))"
    by (simp add: case_prod_beta o_def del: map_fst_enumerate)
  then show ?thesis by simp
qed

lemma dispatch_in_order:
  assumes "wf_store (shared_state b)" and "buckets_hold cls seen (shared_state b)"
    and "\<And>i j. i < length pdfs \<Longrightarrow> j < length (pdfs ! i)
           \<Longrightarrow> cls (d + i, j) = classify_page templates (pdfs ! i ! j)"
  shows "buckets_hold cls
           (seen @ concat (map (\<lambda>(pdf_index, pdf). map (\<lambda>page_number. (pdf_index, page_number)) [0 ..< length pdf])
                             (enumerate d pdfs)))
           (shared_state (dispatch templates tp d pdfs [] b))"
  using assms
proof (induction pdfs arbitrary: d b seen)
  case Nil
  then show ?case by simp
next
  case (Cons pdf pdfs)
  let ?s = "run_pdf templates d pdf [] (shared_state b)"
  let ?b = "\<lparr>shared_state = ?s, completed = completed b + length pdf,
        reported = reported b
          @ map (\<lambda>completed_pages. of_nat completed_pages / of_nat tp * 100)
              [completed b + 1 ..< completed b + length pdf + 1]\<rparr>"
  have "cls (d, 0 + j) = classify_page templates (pdf ! j)" if "j < length pdf" for j
    using Cons.prems(3) [of 0 j] that by simp
  from drain_pages [OF Cons.prems(1,2) this]
  have wf: "wf_store (shared_state ?b)"
    and bh: "buckets_hold cls (seen @ map (\<lambda>page_number. (d, page_number)) [0 ..< length pdf])
               (shared_state ?b)"
    by (simp_all add: run_pdf_def pages_of_enumerate)
  have "cls (Suc d + i, j) = classify_page templates (pdfs ! i ! j)"
    if "i < length pdfs" "j < length (pdfs ! i)" for i j
    using Cons.prems(3) [of "Suc i" j] that by simp
  from Cons.IH [OF wf bh this]
  show ?case by simp
qed

section \<open>Properties of the batch (version 0.0.2)\<close>

lemma open_all_map_Inr: "open_all (map Inr pdfs) = Inr pdfs"
  by (induction pdfs) simp_all

lemma dispatch_counters:
  "completed (dispatch templates tp d pdfs schedules b) = completed b + sum_list (map length pdfs)
   \<and> reported (dispatch templates tp d pdfs schedules b)
       = reported b @ map (\<lambda>completed_pages. of_nat completed_pages / of_nat tp * 100)
           [completed b + 1 ..< completed b + sum_list (map length pdfs) + 1]"
proof (induction pdfs arbitrary: d schedules b)
  case Nil
  show ?case by simp
next
  case (Cons pdf pdfs)
  have "[completed b + 1 ..< completed b + length pdf + 1 + sum_list (map length pdfs)]
          = [completed b + 1 ..< completed b + length pdf + 1]
            @ [completed b + length pdf + 1 ..< completed b + length pdf + 1 + sum_list (map length pdfs)]"
    by (rule upt_add_eq_append) simp
  then show ?case
    by (simp add: Cons.IH add.assoc add.left_commute add.commute)
qed


lemma process_files_report:
  assumes "load_templates source = Inr templates"
  shows "\<exists>r. process_files source (map Inr pdfs) schedules faults = Inr r
      \<and> total_pages r = sum_list (map length pdfs)
      \<and> completed_pages r = total_pages r
      \<and> progress r = map (\<lambda>completed_pages. of_nat completed_pages / of_nat (total_pages r) * 100)
                        [1 ..< total_pages r + 1]"
proof -
  let ?tp = "sum_list (map length pdfs)"
  let ?b = "dispatch templates ?tp 0 pdfs schedules
              \<lparr>shared_state = \<lparr>company_images = [], lists = []\<rparr>, completed = 0, reported = []\<rparr>"
  obtain pdfs_written err where
    c: "create_company_pdfs faults (buckets_of (shared_state ?b)) = (pdfs_written, err)"
    by (cases "create_company_pdfs faults (buckets_of (shared_state ?b))")
  let ?r = "\<lparr>total_pages = ?tp, completed_pages = completed ?b, progress = reported ?b,
             buckets = buckets_of (shared_state ?b), written = pdfs_written, logged = err\<rparr>"
  have r: "process_files source (map Inr pdfs) schedules faults = Inr ?r"
    using assms c by (simp add: process_files_def open_all_map_Inr Let_def)
  have cnt: "completed ?b = ?tp"
    and rep: "reported ?b = map (\<lambda>completed_pages. of_nat completed_pages / of_nat ?tp * 100) [1 ..< ?tp + 1]"
    using dispatch_counters [of templates ?tp 0 pdfs schedules
        "\<lparr>shared_state = \<lparr>company_images = [], lists = []\<rparr>, completed = 0, reported = []\<rparr>"]
    by simp_all
  show ?thesis
    using r cnt rep by simp
qed



text \<open>
  Claim C5, as stated. One PDF of two pages, both matched to the company X; the worker
  of the second page takes its four steps before the worker of the first page appends:
  the bucket holds page 1 before page 0.
\<close>

theorem bucket_order_counterexample:
  "process_files
     (File (Parsed (JsonObject [(''X'', Rules \<lparr>header_keywords = [''X''], layout_features = None, regex_patterns = []\<rparr>)])))
     [Inr [\<lparr>page_text = Inr (''X'', []), page_image = None\<rparr>,
           \<lparr>page_text = Inr (''X'', []), page_image = None\<rparr>]]
     [[1, 1, 1, 1]]
     \<lparr>makedirs_fails = (\<lambda>c. False), image_fails = (\<lambda>c i. False), output_fails = (\<lambda>c. False)\<rparr>
   = Inr \<lparr>total_pages = 2, completed_pages = 2, progress = [50, 100],
          buckets = [(''X'', [(0, 1), (0, 0)])],
          written = [(''X'', [(0, 1), (0, 0)])], logged = None\<rparr>"
  by (simp add: process_files_def load_templates_def open_file_def json_load_def Let_def
      run_pdf_def buckets_of_def start_worker_def classify_page_def identify_page_json_def rules_match_def template_matches_def
      finish_def enumerate_eq_zip upt_rec)

lemma process_files_store:
  assumes "process_files source pdf_files schedules faults = Inr r"
  obtains templates pdfs b where
    "load_templates source = Inr templates" "open_all pdf_files = Inr pdfs"
    "b = dispatch templates (sum_list (map length pdfs)) 0 pdfs schedules
           \<lparr>shared_state = \<lparr>company_images = [], lists = []\<rparr>, completed = 0, reported = []\<rparr>"
    "buckets r = buckets_of (shared_state b)"
    "written r = fst (create_company_pdfs faults (buckets r))"
    "completed_pages r = completed b"
  using assms
  by (auto simp: process_files_def Let_def split: sum.splits prod.splits)

lemma good_store_initial: "good_store 0 P \<lparr>company_images = [], lists = []\<rparr>"
  by (simp add: good_store_def)

text \<open>
  Claim C5, amended. Under every schedule of the workers, every bucket is in the order
  of the PDFs: the pages of an earlier PDF come before the pages of a later one. When
  the workers of each PDF run one after the other in page order, the bucket of a company
  holds exactly the pages classified under it, in the order of the PDFs and then by
  ascending page number.
\<close>

theorem buckets_in_pdf_order:
  assumes "load_templates source = Inr templates"
  shows "(\<exists>r. process_files source (map Inr pdfs) schedules faults = Inr r
            \<and> list_all (\<lambda>(company, images). sorted (map fst images)) (buckets r))
       \<and> (\<exists>r. process_files source (map Inr pdfs) [] faults = Inr r
            \<and> (\<forall>company. map_of (buckets r) company
                  = (if company = [] \<or> pages_of_company templates pdfs company = [] then None
                     else Some (pages_of_company templates pdfs company))))"
proof
  from process_files_report [OF assms, of pdfs schedules faults]
  obtain r where r: "process_files source (map Inr pdfs) schedules faults = Inr r" by blast
  then obtain templates' pdfs' b where
    b: "b = dispatch templates' (sum_list (map length pdfs')) 0 pdfs' schedules
           \<lparr>shared_state = \<lparr>company_images = [], lists = []\<rparr>, completed = 0, reported = []\<rparr>"
    and bs: "buckets r = buckets_of (shared_state b)"
    by (rule process_files_store)
  have "\<exists>d'. good_store d' (\<lambda>r. True) (shared_state b)"
    unfolding b by (rule dispatch_good) (simp_all add: good_store_initial)
  then obtain d' where "good_store d' (\<lambda>r. True) (shared_state b)" ..
  then have "list_all (\<lambda>(company, images). sorted (map fst images)) (buckets r)"
    unfolding bs list_all_iff by (auto dest: buckets_of_good)
  with r show "\<exists>r. process_files source (map Inr pdfs) schedules faults = Inr r
            \<and> list_all (\<lambda>(company, images). sorted (map fst images)) (buckets r)" by blast
next
  let ?cls = "\<lambda>(d, n). classify_page templates (pdfs ! d ! n)"
  from process_files_report [OF assms, of pdfs "[]" faults]
  obtain r where r: "process_files source (map Inr pdfs) [] faults = Inr r" by blast
  then obtain templates' pdfs' b where
    t: "load_templates source = Inr templates'" and p: "open_all (map Inr pdfs) = Inr pdfs'"
    and b: "b = dispatch templates' (sum_list (map length pdfs')) 0 pdfs' []
           \<lparr>shared_state = \<lparr>company_images = [], lists = []\<rparr>, completed = 0, reported = []\<rparr>"
    and bs: "buckets r = buckets_of (shared_state b)"
    by (rule process_files_store)
  from t assms have te: "templates' = templates" by simp
  from p have pe: "pdfs' = pdfs" by (simp add: open_all_map_Inr)
  have "buckets_hold ?cls
          ([] @ concat (map (\<lambda>(pdf_index, pdf). map (\<lambda>page_number. (pdf_index, page_number)) [0 ..< length pdf])
                          (enumerate 0 pdfs)))
          (shared_state b)"
    unfolding b te pe
    by (rule dispatch_in_order) (simp_all add: wf_store_def buckets_hold_def buckets_of_def)
  then have bh: "buckets_hold ?cls (enumeration_order pdfs) (shared_state b)"
    by (simp add: enumeration_order_def)
  have eq: "(\<lambda>r. ?cls r = Inr (Some c))
              = (\<lambda>(d, n). classify_page templates (pdfs ! d ! n) = Inr (Some c))" for c
    by (rule ext) (simp add: case_prod_beta)
  have "\<forall>company. map_of (buckets r) company
                  = (if company = [] \<or> pages_of_company templates pdfs company = [] then None
                     else Some (pages_of_company templates pdfs company))"
    using bh unfolding bs buckets_hold_def pages_of_company_def eq .
  with r show "\<exists>r. process_files source (map Inr pdfs) [] faults = Inr r
            \<and> (\<forall>company. map_of (buckets r) company
                  = (if company = [] \<or> pages_of_company templates pdfs company = [] then None
                     else Some (pages_of_company templates pdfs company)))" by blast
qed

theorem buckets_in_pdf_order_witness:
  "load_templates (File (Parsed
       (JsonObject [(''X'', Rules \<lparr>header_keywords = [''X''], layout_features = None, regex_patterns = []\<rparr>)])))
     = Inr (JsonObject [(''X'', Rules \<lparr>header_keywords = [''X''], layout_features = None, regex_patterns = []\<rparr>)])
   \<and> process_files
     (File (Parsed (JsonObject [(''X'', Rules \<lparr>header_keywords = [''X''], layout_features = None, regex_patterns = []\<rparr>)])))
     (map Inr [[\<lparr>page_text = Inr (''X'', []), page_image = None\<rparr>,
                \<lparr>page_text = Inr (''X'', []), page_image = None\<rparr>,
                \<lparr>page_text = Inr (''X'', []), page_image = None\<rparr>],
               [\<lparr>page_text = Inr (''X'', []), page_image = None\<rparr>,
                \<lparr>page_text = Inr (''X'', []), page_image = None\<rparr>]])
     [[2, 2, 2, 2], [1, 1, 1, 1]]
     \<lparr>makedirs_fails = (\<lambda>c. False), image_fails = (\<lambda>c i. False), output_fails = (\<lambda>c. False)\<rparr>
   = Inr \<lparr>total_pages = 5, completed_pages = 5, progress = [20, 40, 60, 80, 100],
          buckets = [(''X'', [(0, 2), (0, 0), (0, 1), (1, 1), (1, 0)])],
          written = [(''X'', [(0, 2), (0, 0), (0, 1), (1, 1), (1, 0)])], logged = None\<rparr>
   \<and> process_files
     (File (Parsed (JsonObject [(''X'', Rules \<lparr>header_keywords = [''X''], layout_features = None, regex_patterns = []\<rparr>)])))
     (map Inr [[\<lparr>page_text = Inr (''X'', []), page_image = None\<rparr>,
                \<lparr>page_text = Inr (''X'', []), page_image = None\<rparr>,
                \<lparr>page_text = Inr (''X'', []), page_image = None\<rparr>],
               [\<lparr>page_text = Inr (''X'', []), page_image = None\<rparr>,
                \<lparr>page_text = Inr (''X'', []), page_image = None\<rparr>]])
     []
     \<lparr>makedirs_fails = (\<lambda>c. False), image_fails = (\<lambda>c i. False), output_fails = (\<lambda>c. False)\<rparr>
   = Inr \<lparr>total_pages = 5, completed_pages = 5, progress = [20, 40, 60, 80, 100],
          buckets = [(''X'', [(0, 0), (0, 1), (0, 2), (1, 0), (1, 1)])],
          written = [(''X'', [(0, 0), (0, 1), (0, 2), (1, 0), (1, 1)])], logged = None\<rparr>"
proof -
  let ?ts = "(JsonObject [(''X'', Rules \<lparr>header_keywords = [''X''], layout_features = None, regex_patterns = []\<rparr>)])"
  have h: "load_templates (File (Parsed ?ts)) = Inr ?ts"
    by (simp add: load_templates_def open_file_def json_load_def)
  from h buckets_in_pdf_order [OF h,
      of "[[\<lparr>page_text = Inr (''X'', []), page_image = None\<rparr>,
            \<lparr>page_text = Inr (''X'', []), page_image = None\<rparr>,
            \<lparr>page_text = Inr (''X'', []), page_image = None\<rparr>],
           [\<lparr>page_text = Inr (''X'', []), page_image = None\<rparr>,
            \<lparr>page_text = Inr (''X'', []), page_image = None\<rparr>]]"
         "[[2, 2, 2, 2], [1, 1, 1, 1]]"
         "\<lparr>makedirs_fails = (\<lambda>c. False), image_fails = (\<lambda>c i. False), output_fails = (\<lambda>c. False)\<rparr>"]
  show ?thesis
    by (simp add: process_files_def Let_def run_pdf_def buckets_of_def start_worker_def
        classify_page_def identify_page_json_def rules_match_def template_matches_def finish_def enumerate_eq_zip upt_rec)
qed

text \<open>
  Claim C7. A page for which \<open>identify_page\<close> returns \<open>None\<close> is in no bucket and in no
  PDF that is written, under every schedule, and \<open>completed_pages\<close> ends at the number
  of all pages of all PDFs, this page among them.
\<close>

theorem unmatched_page_not_in_buckets:
  assumes "load_templates source = Inr templates"
    and "d < length pdfs" and "n < length (pdfs ! d)"
    and "page_text (pdfs ! d ! n) = Inr (text, page_features)"
    and "identify_page_json text page_features templates = Inr None"
  shows "\<exists>r. process_files source (map Inr pdfs) schedules faults = Inr r
      \<and> list_all (\<lambda>(company, images). (d, n) \<notin> set images) (buckets r)
      \<and> list_all (\<lambda>(company, images). (d, n) \<notin> set images) (written r)
      \<and> completed_pages r = sum_list (map length pdfs)"
proof -
  from process_files_report [OF assms(1), of pdfs schedules faults]
  obtain r where r: "process_files source (map Inr pdfs) schedules faults = Inr r"
    and cnt: "completed_pages r = sum_list (map length pdfs)" by auto
  let ?P = "\<lambda>(k, m). \<exists>company. k < length pdfs \<and> m < length (pdfs ! k)
              \<and> classify_page templates (pdfs ! k ! m) = Inr (Some company) \<and> company \<noteq> []"
  from r obtain templates' pdfs' b where
    t: "load_templates source = Inr templates'" and p: "open_all (map Inr pdfs) = Inr pdfs'"
    and b: "b = dispatch templates' (sum_list (map length pdfs')) 0 pdfs' schedules
           \<lparr>shared_state = \<lparr>company_images = [], lists = []\<rparr>, completed = 0, reported = []\<rparr>"
    and bs: "buckets r = buckets_of (shared_state b)"
    and w: "written r = fst (create_company_pdfs faults (buckets r))"
    by (rule process_files_store)
  from t assms(1) have [simp]: "templates' = templates" by simp
  from p have [simp]: "pdfs' = pdfs" by (simp add: open_all_map_Inr)
  have "\<exists>d'. good_store d' ?P (shared_state b)"
    unfolding b by (rule dispatch_good) (auto simp: good_store_initial)
  then obtain d' where g: "good_store d' ?P (shared_state b)" ..
  have "\<not> ?P (d, n)"
    using assms(4,5) by (auto simp: classify_page_def split: option.splits)
  with g have nb: "(d, n) \<notin> set images" if "(company, images) \<in> set (buckets r)" for company images
    using that buckets_of_good [OF g, of company images] unfolding bs
    by (auto simp: list_all_iff)
  have "set (written r) \<subseteq> set (buckets r)"
    unfolding w by (rule create_company_pdfs_subset)
  with nb have "(d, n) \<notin> set images" if "(company, images) \<in> set (written r)" for company images
    using that by blast
  with nb r cnt show ?thesis
    by (auto simp: list_all_iff)
qed

theorem unmatched_page_not_in_buckets_witness:
  "load_templates (File (Parsed
       (JsonObject [(''X'', Rules \<lparr>header_keywords = [''X''], layout_features = None, regex_patterns = []\<rparr>)])))
     = Inr (JsonObject [(''X'', Rules \<lparr>header_keywords = [''X''], layout_features = None, regex_patterns = []\<rparr>)])
   \<and> 0 < length [[\<lparr>page_text = Inr (''X'', []), page_image = None\<rparr>,
                   \<lparr>page_text = Inr (''nothing'', []), page_image = None\<rparr>]]
   \<and> 1 < length ([[\<lparr>page_text = Inr (''X'', []), page_image = None\<rparr>,
                    \<lparr>page_text = Inr (''nothing'', []), page_image = None\<rparr>]] ! 0)
   \<and> page_text ([[\<lparr>page_text = Inr (''X'', []), page_image = None\<rparr>,
                    \<lparr>page_text = Inr (''nothing'', []), page_image = None\<rparr>]] ! 0 ! 1)
       = Inr (''nothing'', [])
   \<and> identify_page_json ''nothing'' []
       (JsonObject [(''X'', Rules \<lparr>header_keywords = [''X''], layout_features = None, regex_patterns = []\<rparr>)])
       = Inr None
   \<and> process_files
       (File (Parsed
          (JsonObject [(''X'', Rules \<lparr>header_keywords = [''X''], layout_features = None, regex_patterns = []\<rparr>)])))
       (map Inr [[\<lparr>page_text = Inr (''X'', []), page_image = None\<rparr>,
                  \<lparr>page_text = Inr (''nothing'', []), page_image = None\<rparr>]])
       []
       \<lparr>makedirs_fails = (\<lambda>c. False), image_fails = (\<lambda>c i. False), output_fails = (\<lambda>c. False)\<rparr>
     = Inr \<lparr>total_pages = 2, completed_pages = 2, progress = [50, 100],
            buckets = [(''X'', [(0, 0)])], written = [(''X'', [(0, 0)])], logged = None\<rparr>"
proof -
  let ?ts = "(JsonObject [(''X'', Rules \<lparr>header_keywords = [''X''], layout_features = None, regex_patterns = []\<rparr>)])"
  let ?pdfs = "[[\<lparr>page_text = Inr (''X'', []), page_image = None\<rparr>,
                 \<lparr>page_text = Inr (''nothing'', []), page_image = None\<rparr>]]"
  have h1: "load_templates (File (Parsed ?ts)) = Inr ?ts"
    by (simp add: load_templates_def open_file_def json_load_def)
  have h2: "0 < length ?pdfs" and h3: "1 < length (?pdfs ! 0)"
    and h4: "page_text (?pdfs ! 0 ! 1) = Inr (''nothing'', [])" by simp_all
  have h5: "identify_page_json ''nothing'' [] ?ts = Inr None"
    by (simp add: identify_page_json_def rules_match_def template_matches_def
        round_double_four_fifths sublist_code(3))
  from h1 h2 h3 h4 h5
    unmatched_page_not_in_buckets [OF h1 h2 h3 h4 h5, of "[]"
      "\<lparr>makedirs_fails = (\<lambda>c. False), image_fails = (\<lambda>c i. False), output_fails = (\<lambda>c. False)\<rparr>"]
  show ?thesis
    by (simp add: process_files_def Let_def run_pdf_def buckets_of_def start_worker_def
        classify_page_def identify_page_json_def rules_match_def template_matches_def round_double_four_fifths finish_def
        enumerate_eq_zip upt_rec sublist_code(3))
qed

lemma process_page_v1_unmatched:
  assumes "ocr_text page = Inr text" and "identify_company text templates = None"
  shows "process_page_v1 re_search templates page_number page \<noteq> Processed (Some saved)"
  using assms by (simp add: process_page_v1_def Let_def split: sum.splits)

section \<open>Properties of a run whose pages all fail\<close>








section \<open>Properties of template loading in a run\<close>



end
